theory Spec2Isabelle
  imports Complex_Main
begin

section \<open>Data model\<close>

text \<open>
  A shallow embedding of \<^verbatim>\<open>pyrobosim/navigation/prm.py\<close>: the polygon-based
  probabilistic roadmap planner \<^verbatim>\<open>PRMPlannerPolygon\<close> and its facade
  \<^verbatim>\<open>PRMPlanner\<close>.

  The classes \<^verbatim>\<open>Pose\<close>, \<^verbatim>\<open>Node\<close>, \<^verbatim>\<open>SearchGraph\<close> and \<^verbatim>\<open>Path\<close>
  live in \<^verbatim>\<open>pyrobosim/utils\<close>, which is not part of the sources at hand; their
  data and the graph's insertion and removal operations are modelled from the
  specification, and every such definition says so. The shortest-path search, the
  waypoint compressor and the heading fill of a path are kept as parameters; the
  heading fill is also modelled from the specification, for the examples.
\<close>

text \<open>Modelled from the spec: a Pose is an immutable value (x, y, heading).\<close>

record pose =
  pos_x :: real
  pos_y :: real
  yaw :: real

text \<open>
  Modelled from the spec: a Node wraps a Pose, carries an optional parent reference and
  has an identity of its own, distinct from other nodes even if poses coincide. The
  identity is the field \<open>nid\<close>; wherever the Python compares nodes (\<^verbatim>\<open>node == other\<close>,
  membership in the graph, removal) the model compares \<open>nid\<close>.
\<close>

record node =
  nid :: nat
  pose :: pose
  parent :: "nat option"

text \<open>
  Modelled from the spec: the roadmap graph is a collection of nodes, iterated in
  order, and a collection of undirected edges, each kept as a pair of node identities.
\<close>

record search_graph =
  nodes :: "node list"
  edges :: "(nat \<times> nat) list"

text \<open>Modelled from the spec: a Path is an ordered sequence of Poses, empty on failure.\<close>

record path =
  poses :: "pose list"

text \<open>
  The world is used through two methods only. \<open>is_connectable w a b d\<close> is
  \<^verbatim>\<open>world.is_connectable(a, b, d)\<close>. The sampler draws at random; \<open>sample_free_robot_pose_uniform w k\<close>
  is the outcome of the \<open>k\<close>-th call made to it, \<open>None\<close> when no free pose was found.
\<close>

record world =
  is_connectable :: "pose \<Rightarrow> pose \<Rightarrow> real \<Rightarrow> bool"
  sample_free_robot_pose_uniform :: "nat \<Rightarrow> pose option"

text \<open>
  The collaborators whose code is not at hand, as parameters:
  \<^verbatim>\<open>SearchGraph.find_path\<close>, \<^verbatim>\<open>reduce_waypoints_polygon\<close> and \<^verbatim>\<open>Path.fill_yaws\<close>.
\<close>

record collab =
  find_path :: "search_graph \<Rightarrow> node \<Rightarrow> node \<Rightarrow> node list"
  reduce_waypoints_polygon :: "world \<Rightarrow> pose list \<Rightarrow> pose list"
  fill_yaws :: "path \<Rightarrow> path"

text \<open>The fields of \<^verbatim>\<open>PRMPlannerPolygon\<close>.\<close>

record planner =
  max_connection_dist :: real
  max_nodes :: int
  the_world :: world
  compress_path :: bool
  planning_time :: real
  sampling_time :: real
  latest_path :: path
  graph :: search_graph

text \<open>\<^verbatim>\<open>plan\<close> takes each of start and goal as a Pose or as a graph Node.\<close>

datatype endpoint = RawPose pose | ExistingNode node

datatype diagnostic = CouldNotSampleMoreThan nat

datatype error = NotImplementedError string | TypeError string

section \<open>The graph operations\<close>

text \<open>
  Modelled from the spec: the roadmap is created empty (\<^verbatim>\<open>SearchGraph(...)\<close>), and
  \<^verbatim>\<open>Path()\<close> is the Path with no poses.
\<close>

definition empty_graph :: search_graph where
  "empty_graph = \<lparr>nodes = [], edges = []\<rparr>"

definition empty_path :: path where
  "empty_path = \<lparr>poses = []\<rparr>"

definition node_ids :: "search_graph \<Rightarrow> nat list" where
  "node_ids g = map nid (nodes g)"

text \<open>
  A Python object is distinct from every object alive when it is created: a new node
  takes an identity that none of the live nodes \<open>used\<close> has.
\<close>

definition new_id :: "nat list \<Rightarrow> nat" where
  "new_id used = Suc (Max (set (0 # used)))"

definition mk_node :: "nat list \<Rightarrow> pose \<Rightarrow> node" where
  "mk_node used p = \<lparr>nid = new_id used, pose = p, parent = None\<rparr>"

text \<open>Modelled from the spec: \<^verbatim>\<open>addNode(node)\<close> on the node collection, a set by identity.\<close>

definition add_node :: "search_graph \<Rightarrow> node \<Rightarrow> search_graph" where
  "add_node g n = (if nid n \<in> set (node_ids g) then g else g\<lparr>nodes := nodes g @ [n]\<rparr>)"

text \<open>Two node identities are joined when the edge collection holds them in either order.\<close>

definition has_edge :: "search_graph \<Rightarrow> nat \<Rightarrow> nat \<Rightarrow> bool" where
  "has_edge g a b \<longleftrightarrow> (a, b) \<in> set (edges g) \<or> (b, a) \<in> set (edges g)"

text \<open>Modelled from the spec: \<^verbatim>\<open>addEdge(nodeA, nodeB)\<close> is idempotent and undirected.\<close>

definition add_edge :: "search_graph \<Rightarrow> node \<Rightarrow> node \<Rightarrow> search_graph" where
  "add_edge g a b =
     (if has_edge g (nid a) (nid b) then g else g\<lparr>edges := edges g @ [(nid a, nid b)]\<rparr>)"

text \<open>
  Modelled from the spec: \<^verbatim>\<open>removeNode(node)\<close> also detaches the incident edges. The
  spec does not say what removing a node that is not in the graph does; here it
  leaves the graph as it is.
\<close>

definition remove_node :: "search_graph \<Rightarrow> node \<Rightarrow> search_graph" where
  "remove_node g n =
     g\<lparr>nodes := filter (\<lambda>m. nid m \<noteq> nid n) (nodes g),
       edges := filter (\<lambda>(a, b). a \<noteq> nid n \<and> b \<noteq> nid n) (edges g)\<rparr>"

section \<open>PRMPlannerPolygon\<close>

text \<open>
  \<^verbatim>\<open>connect_neighbors\<close>: the loop over \<^verbatim>\<open>self.graph.nodes\<close>. The loop adds edges only, so
  the collection it iterates over is the one it started with.
\<close>

definition connect_step :: "world \<Rightarrow> real \<Rightarrow> node \<Rightarrow> node \<Rightarrow> search_graph \<Rightarrow> search_graph" where
  "connect_step w d n other g =
     (if nid n = nid other then g
      else if is_connectable w (pose n) (pose other) d then add_edge g n other
      else g)"

definition connect_graph :: "world \<Rightarrow> real \<Rightarrow> search_graph \<Rightarrow> node \<Rightarrow> search_graph" where
  "connect_graph w d g n = fold (connect_step w d n) (nodes g) g"

definition connect_neighbors :: "planner \<Rightarrow> node \<Rightarrow> planner" where
  "connect_neighbors self n =
     self\<lparr>graph := connect_graph (the_world self) (max_connection_dist self) (graph self) n\<rparr>"

text \<open>
  The sampling loop of \<^verbatim>\<open>reset\<close>, over \<^verbatim>\<open>range(self.max_nodes)\<close>: iteration \<open>i\<close> makes the
  \<open>i\<close>-th call to the sampler; a failed sample warns with \<open>i\<close> and breaks.
\<close>

fun sample_nodes :: "world \<Rightarrow> nat list \<Rightarrow> search_graph \<Rightarrow> search_graph \<times> diagnostic list" where
  "sample_nodes w [] g = (g, [])"
| "sample_nodes w (i # rest) g =
     (case sample_free_robot_pose_uniform w i of
        None \<Rightarrow> (g, [CouldNotSampleMoreThan i])
      | Some p \<Rightarrow> sample_nodes w rest (add_node g (mk_node (node_ids g) p)))"

text \<open>
  \<^verbatim>\<open>reset\<close>. \<open>t_sampling\<close> is the wall-clock span the sampling loop took. The result
  carries the warnings emitted.
\<close>

definition reset :: "real \<Rightarrow> planner \<Rightarrow> planner \<times> diagnostic list" where
  "reset t_sampling self =
     (let self1 = self\<lparr>planning_time := 0, sampling_time := 0, latest_path := empty_path,
                       graph := empty_graph\<rparr>;
          (g, warns) = sample_nodes (the_world self1) [0 ..< nat (max_nodes self1)] (graph self1);
          self2 = self1\<lparr>graph := g, sampling_time := t_sampling\<rparr>
      in (fold (\<lambda>n s. connect_neighbors s n) (nodes g) self2, warns))"

text \<open>\<^verbatim>\<open>PRMPlannerPolygon.__init__\<close>.\<close>

definition prm_polygon_init ::
  "real \<Rightarrow> bool \<Rightarrow> real \<Rightarrow> int \<Rightarrow> world \<Rightarrow> planner \<times> diagnostic list" where
  "prm_polygon_init t_sampling compress d n w =
     reset t_sampling
       \<lparr>max_connection_dist = d, max_nodes = n, the_world = w, compress_path = compress,
        planning_time = 0, sampling_time = 0, latest_path = empty_path, graph = empty_graph\<rparr>"

text \<open>
  \<^verbatim>\<open>plan\<close>, in the order of the source. The start node is created while the goal
  the caller passed is alive, the goal node once the start node is in the graph.
\<close>

fun endpoint_ids :: "endpoint \<Rightarrow> nat list" where
  "endpoint_ids (RawPose p) = []"
| "endpoint_ids (ExistingNode n) = [nid n]"

definition start_node :: "planner \<Rightarrow> endpoint \<Rightarrow> endpoint \<Rightarrow> node" where
  "start_node self start goal =
     (case start of
        RawPose p \<Rightarrow> mk_node (node_ids (graph self) @ endpoint_ids goal) p
      | ExistingNode n \<Rightarrow> n)"

definition goal_node :: "planner \<Rightarrow> endpoint \<Rightarrow> endpoint \<Rightarrow> node" where
  "goal_node self start goal =
     (case goal of
        RawPose p \<Rightarrow> mk_node (node_ids (add_node (graph self) (start_node self start goal))) p
      | ExistingNode n \<Rightarrow> n)"

text \<open>Lines 90 to 101: the planner once start and goal are inserted and connected.\<close>

definition insert_query :: "planner \<Rightarrow> endpoint \<Rightarrow> endpoint \<Rightarrow> planner" where
  "insert_query self start goal =
     (let self1 = self\<lparr>latest_path := empty_path, planning_time := 0\<rparr>;
          s = start_node self start goal;
          self2 = self1\<lparr>graph := add_node (graph self1) s\<rparr>;
          g = goal_node self start goal;
          self3 = self2\<lparr>graph := add_node (graph self2) g\<rparr>;
          self4 = connect_neighbors self3 s
      in connect_neighbors self4 g)"

text \<open>The waypoints \<^verbatim>\<open>self.graph.find_path(start, goal)\<close> returns at line 105.\<close>

definition query_waypoints :: "collab \<Rightarrow> planner \<Rightarrow> endpoint \<Rightarrow> endpoint \<Rightarrow> node list" where
  "query_waypoints ext self start goal =
     find_path ext (graph (insert_query self start goal))
       (start_node self start goal) (goal_node self start goal)"

text \<open>
  \<^verbatim>\<open>plan\<close> returns the path and leaves the planner changed. \<open>t_planning\<close> is the
  wall-clock span from line 104 to line 115.
\<close>

definition plan :: "collab \<Rightarrow> real \<Rightarrow> planner \<Rightarrow> endpoint \<Rightarrow> endpoint \<Rightarrow> path \<times> planner" where
  "plan ext t_planning self start goal =
     (let self1 = insert_query self start goal;
          s = start_node self start goal;
          g = goal_node self start goal;
          waypoints = find_path ext (graph self1) s g
      in if waypoints = [] then (latest_path self1, self1)
         else
           let path_poses = map pose waypoints;
               path_poses = (if compress_path self1
                             then reduce_waypoints_polygon ext (the_world self1) path_poses
                             else path_poses);
               self2 = self1\<lparr>latest_path := fill_yaws ext \<lparr>poses = path_poses\<rparr>\<rparr>;
               self3 = self2\<lparr>planning_time := t_planning\<rparr>;
               self4 = self3\<lparr>graph := remove_node (graph self3) s\<rparr>;
               self5 = self4\<lparr>graph := remove_node (graph self4) g\<rparr>
           in (latest_path self5, self5))"

section \<open>PRMPlanner, the facade\<close>

text \<open>
  The keyword arguments of \<^verbatim>\<open>PRMPlanner.__init__\<close>: \<open>None\<close> is a key the caller did not
  pass. The world is always passed.
\<close>

record planner_config =
  cfg_grid :: "bool option"
  cfg_compress_path :: "bool option"
  cfg_max_connection_dist :: "real option"
  cfg_max_nodes :: "int option"
  cfg_world :: world

record prm_planner =
  impl :: planner
  facade_latest_path :: path
  facade_planning_time :: real
  graphs :: "search_graph list"

text \<open>
  \<^verbatim>\<open>PRMPlanner.__init__\<close>. A true \<^verbatim>\<open>grid\<close> raises; a \<^verbatim>\<open>grid\<close> key that is false goes
  on to \<^verbatim>\<open>PRMPlannerPolygon(**planner_config)\<close>, which has no such parameter. The
  fields set by the base class are given their initial values here.
\<close>

definition prm_planner_init ::
  "real \<Rightarrow> planner_config \<Rightarrow> error + (prm_planner \<times> diagnostic list)" where
  "prm_planner_init t_sampling cfg =
     (case cfg_grid cfg of
        Some True \<Rightarrow> Inl (NotImplementedError ''Grid based PRM is not supported. '')
      | Some False \<Rightarrow> Inl (TypeError ''__init__() got an unexpected keyword argument grid'')
      | None \<Rightarrow>
          (let (p, warns) =
                 prm_polygon_init t_sampling
                   (case cfg_compress_path cfg of None \<Rightarrow> False | Some b \<Rightarrow> b)
                   (case cfg_max_connection_dist cfg of None \<Rightarrow> 2 | Some d \<Rightarrow> d)
                   (case cfg_max_nodes cfg of None \<Rightarrow> 50 | Some n \<Rightarrow> n)
                   (cfg_world cfg)
           in Inr (\<lparr>impl = p, facade_latest_path = empty_path, facade_planning_time = 0,
                    graphs = []\<rparr>, warns)))"

text \<open>\<^verbatim>\<open>PRMPlanner.plan\<close>; \<open>t_facade\<close> is the span the facade measures around the call.\<close>

definition prm_planner_plan ::
  "collab \<Rightarrow> real \<Rightarrow> real \<Rightarrow> prm_planner \<Rightarrow> endpoint \<Rightarrow> endpoint \<Rightarrow> path \<times> prm_planner" where
  "prm_planner_plan ext t_planning t_facade self start goal =
     (let (p, impl') = plan ext t_planning (impl self) start goal;
          self' = self\<lparr>impl := impl', facade_latest_path := p, facade_planning_time := t_facade,
                       graphs := [graph impl']\<rparr>
      in (p, self'))"

section \<open>Graph invariants\<close>

text \<open>
  The invariant of the roadmap graph stated by the specification: the endpoints of every
  edge are nodes of the graph.
\<close>

definition edges_closed :: "search_graph \<Rightarrow> bool" where
  "edges_closed g \<longleftrightarrow>
     (\<forall>(a, b) \<in> set (edges g). a \<in> set (node_ids g) \<and> b \<in> set (node_ids g))"

text \<open>
  An endpoint that \<^verbatim>\<open>plan\<close> brings into the graph itself: a raw Pose, for which it makes
  a new node, or a Node that is not in the graph yet.
\<close>

fun transient :: "search_graph \<Rightarrow> endpoint \<Rightarrow> bool" where
  "transient g (RawPose p) = True"
| "transient g (ExistingNode n) = (nid n \<notin> set (node_ids g))"

text \<open>
  The specification assumes, and the code does not verify, that the oracle is symmetric
  in its two poses.
\<close>

definition symmetric_oracle :: "world \<Rightarrow> bool" where
  "symmetric_oracle w \<longleftrightarrow> (\<forall>a b d. is_connectable w a b d = is_connectable w b a d)"

text \<open>
  The roadmap is the connectivity graph of the oracle on its nodes: node identities are
  pairwise distinct, and two of them are joined exactly when they belong to different
  nodes whose poses the oracle connects.
\<close>

definition oracle_graph :: "world \<Rightarrow> real \<Rightarrow> search_graph \<Rightarrow> bool" where
  "oracle_graph w d g \<longleftrightarrow>
     distinct (node_ids g) \<and>
     (\<forall>u v. has_edge g u v \<longleftrightarrow>
        (\<exists>A \<in> set (nodes g). \<exists>B \<in> set (nodes g).
           nid A = u \<and> nid B = v \<and> u \<noteq> v \<and> is_connectable w (pose A) (pose B) d))"

section \<open>What the collaborators are relied on for\<close>

text \<open>
  \<^verbatim>\<open>Path.fill_yaws\<close> derives the headings of the waypoints from consecutive positions:
  it leaves the positions, their number and their order as they are (\<open>heading_fill\<close>).
  On a successful query the first and last Pose of the returned Path are the start and
  goal Poses, as the specification's testable properties have it: the fill leaves the
  first and the last Pose of a path as they are (\<open>keeps_endpoints\<close>).
\<close>

definition position :: "pose \<Rightarrow> real \<times> real" where
  "position p = (pos_x p, pos_y p)"

definition heading_fill :: "(path \<Rightarrow> path) \<Rightarrow> bool" where
  "heading_fill f \<longleftrightarrow> (\<forall>p. map position (poses (f p)) = map position (poses p))"

definition keeps_endpoints :: "(path \<Rightarrow> path) \<Rightarrow> bool" where
  "keeps_endpoints f \<longleftrightarrow>
     (\<forall>p. poses p \<noteq> [] \<longrightarrow>
        hd (poses (f p)) = hd (poses p) \<and> last (poses (f p)) = last (poses p))"

text \<open>
  Modelled from the spec: \<^verbatim>\<open>Path.fill_yaws\<close>, which is not in the sources. Headings are
  derived from consecutive positions, from the first waypoint to the last: each waypoint
  between the first and the last takes the direction of the segment that arrives at it
  (\<open>arctan2\<close> is the two-argument arctangent, on the reals); the first and the last
  Pose are left as they are.
\<close>

definition arctan2 :: "real \<Rightarrow> real \<Rightarrow> real" where
  "arctan2 dy dx =
     (if 0 < dx then arctan (dy / dx)
      else if dx < 0 \<and> 0 \<le> dy then arctan (dy / dx) + pi
      else if dx < 0 then arctan (dy / dx) - pi
      else if 0 < dy then pi / 2
      else if dy < 0 then - (pi / 2)
      else 0)"

fun fill_from :: "pose \<Rightarrow> pose list \<Rightarrow> pose list" where
  "fill_from prev [] = []"
| "fill_from prev [q] = [q]"
| "fill_from prev (q # r # rest) =
     q\<lparr>yaw := arctan2 (pos_y q - pos_y prev) (pos_x q - pos_x prev)\<rparr> # fill_from q (r # rest)"

definition spec_fill_yaws :: "path \<Rightarrow> path" where
  "spec_fill_yaws p =
     (case poses p of [] \<Rightarrow> p | q # rest \<Rightarrow> p\<lparr>poses := q # fill_from q rest\<rparr>)"

text \<open>
  \<^verbatim>\<open>SearchGraph.find_path\<close> returns the nodes of a path from start to goal, or nothing
  when the goal cannot be reached. \<open>search_ok fp g s t\<close> says that the call
  \<open>fp g s t\<close> does so: when \<open>t\<close> can be reached from \<open>s\<close> along edges of \<open>g\<close>, the result
  is a sequence of nodes of \<open>g\<close>, without repetition, that starts at \<open>s\<close>, ends at \<open>t\<close>
  and follows edges; otherwise it is empty. That the path is a shortest one is not
  needed below.
\<close>

definition reachable :: "search_graph \<Rightarrow> nat \<Rightarrow> nat \<Rightarrow> bool" where
  "reachable g u v \<longleftrightarrow> (u, v) \<in> {(a, b). has_edge g a b}\<^sup>*"

fun chain :: "search_graph \<Rightarrow> node list \<Rightarrow> bool" where
  "chain g [] = True"
| "chain g [a] = True"
| "chain g (a # b # rest) = (has_edge g (nid a) (nid b) \<and> chain g (b # rest))"

definition is_route :: "search_graph \<Rightarrow> node \<Rightarrow> node \<Rightarrow> node list \<Rightarrow> bool" where
  "is_route g s t ws \<longleftrightarrow>
     ws \<noteq> [] \<and> nid (hd ws) = nid s \<and> nid (last ws) = nid t \<and> set ws \<subseteq> set (nodes g) \<and>
     distinct (map nid ws) \<and> chain g ws"

definition search_ok ::
  "(search_graph \<Rightarrow> node \<Rightarrow> node \<Rightarrow> node list) \<Rightarrow> search_graph \<Rightarrow> node \<Rightarrow> node \<Rightarrow> bool" where
  "search_ok fp g s t \<longleftrightarrow>
     (if reachable g (nid s) (nid t) then is_route g s t (fp g s t) else fp g s t = [])"

text \<open>
  A Node handed to \<^verbatim>\<open>plan\<close> is a reference to an object. The model passes the node by
  value, so it asks of such an endpoint what holds of any reference: a node that has the
  identity of a node of the graph is that node, and start and goal with one identity
  are one node.
\<close>

fun member_or_new :: "search_graph \<Rightarrow> endpoint \<Rightarrow> bool" where
  "member_or_new g (RawPose p) = True"
| "member_or_new g (ExistingNode n) = (nid n \<in> set (node_ids g) \<longrightarrow> n \<in> set (nodes g))"

fun same_node :: "endpoint \<Rightarrow> endpoint \<Rightarrow> bool" where
  "same_node (ExistingNode n) (ExistingNode m) = (nid n = nid m \<longrightarrow> n = m)"
| "same_node (RawPose p) b = True"
| "same_node a (RawPose q) = True"

definition endpoints_ok :: "search_graph \<Rightarrow> endpoint \<Rightarrow> endpoint \<Rightarrow> bool" where
  "endpoints_ok g start goal \<longleftrightarrow>
     member_or_new g start \<and> member_or_new g goal \<and> same_node start goal"


section \<open>Example worlds\<close>

text \<open>
  A world in which a pose connects to the poses at most \<open>d\<close> away along the x axis. Its
  sampler produces the listed poses, one per call, and fails from then on.
\<close>

definition pt :: "real \<Rightarrow> real \<Rightarrow> pose" where
  "pt a b = \<lparr>pos_x = a, pos_y = b, yaw = 0\<rparr>"

definition line_world :: "pose list \<Rightarrow> world" where
  "line_world ps =
     \<lparr>is_connectable = (\<lambda>a b d. \<bar>pos_x a - pos_x b\<bar> \<le> d),
      sample_free_robot_pose_uniform = (\<lambda>k. if k < length ps then Some (ps ! k) else None)\<rparr>"

text \<open>
  A path search good enough for graphs in which start and goal are joined directly or
  not at all, and collaborators that leave the poses as they are.
\<close>

definition direct_search :: "search_graph \<Rightarrow> node \<Rightarrow> node \<Rightarrow> node list" where
  "direct_search g s t = (if has_edge g (nid s) (nid t) then [s, t] else [])"

definition plain_collab :: collab where
  "plain_collab =
     \<lparr>find_path = direct_search, reduce_waypoints_polygon = (\<lambda>w ps. ps), fill_yaws = (\<lambda>p. p)\<rparr>"

text \<open>
  A path search that also finds the paths through one node between start and goal, with
  the fill modelled above.
\<close>

definition via_search :: "search_graph \<Rightarrow> node \<Rightarrow> node \<Rightarrow> node list" where
  "via_search g s t =
     (if has_edge g (nid s) (nid t) then [s, t]
      else case filter (\<lambda>m. has_edge g (nid s) (nid m) \<and> has_edge g (nid m) (nid t)) (nodes g) of
             [] \<Rightarrow> []
           | m # _ \<Rightarrow> [s, m, t])"

definition filling_collab :: collab where
  "filling_collab =
     \<lparr>find_path = via_search, reduce_waypoints_polygon = (\<lambda>w ps. ps),
      fill_yaws = spec_fill_yaws\<rparr>"

text \<open>A planner built with \<open>max_nodes = 0\<close> in a world without obstacles.\<close>

definition empty_planner :: planner where
  "empty_planner = fst (prm_polygon_init 0 False 1 0 (line_world []))"

text \<open>
  A planner built with \<open>max_nodes = 2\<close> from the samples (0, 0) and (1, 0), one
  connection distance apart, and the two nodes of its roadmap.
\<close>

definition line_planner :: planner where
  "line_planner = fst (prm_polygon_init 0 False 1 2 (line_world [pt 0 0, pt 1 0]))"

definition node1 :: node where
  "node1 = \<lparr>nid = 1, pose = pt 0 0, parent = None\<rparr>"

definition node2 :: node where
  "node2 = \<lparr>nid = 2, pose = pt 1 0, parent = None\<rparr>"

text \<open>The planner object as \<^verbatim>\<open>__init__\<close> has it when it calls \<^verbatim>\<open>reset\<close>.\<close>

definition unbuilt_planner :: "int \<Rightarrow> world \<Rightarrow> planner" where
  "unbuilt_planner n w =
     \<lparr>max_connection_dist = 1, max_nodes = n, the_world = w, compress_path = False,
      planning_time = 0, sampling_time = 0, latest_path = empty_path, graph = empty_graph\<rparr>"

text \<open>
  A pose at the origin whose heading is 1, and a planner whose roadmap is the one node
  sampled there.
\<close>

definition turned :: pose where
  "turned = \<lparr>pos_x = 0, pos_y = 0, yaw = 1\<rparr>"

definition turned_planner :: planner where
  "turned_planner = fst (prm_polygon_init 0 False 1 1 (line_world [turned]))"


definition far3 :: node where "far3 = \<lparr>nid = 3, pose = pt 5 0, parent = None\<rparr>"

definition far4 :: node where "far4 = \<lparr>nid = 4, pose = pt 9 0, parent = None\<rparr>"



section \<open>Basic facts\<close>

lemmas prm_eval =
  query_waypoints_def insert_query_def start_node_def goal_node_def Let_def
  connect_neighbors_def connect_graph_def connect_step_def add_node_def add_edge_def
  remove_node_def node_ids_def mk_node_def new_id_def empty_graph_def empty_path_def
  plain_collab_def direct_search_def has_edge_def line_world_def pt_def

lemma empty_planner_eq:
  "empty_planner =
     \<lparr>max_connection_dist = 1, max_nodes = 0, the_world = line_world [], compress_path = False,
      planning_time = 0, sampling_time = 0, latest_path = empty_path, graph = empty_graph\<rparr>"
  by (simp add: empty_planner_def prm_polygon_init_def reset_def Let_def empty_graph_def)

lemma new_id_fresh: "new_id used \<notin> set used"
proof
  assume "new_id used \<in> set used"
  then have "new_id used \<le> Max (set (0 # used))" by (intro Max_ge) auto
  then show False by (simp add: new_id_def)
qed

lemma connect_neighbors_fields [simp]:
  "latest_path (connect_neighbors s n) = latest_path s"
  "planning_time (connect_neighbors s n) = planning_time s"
  "sampling_time (connect_neighbors s n) = sampling_time s"
  "compress_path (connect_neighbors s n) = compress_path s"
  "the_world (connect_neighbors s n) = the_world s"
  "max_connection_dist (connect_neighbors s n) = max_connection_dist s"
  "max_nodes (connect_neighbors s n) = max_nodes s"
  by (simp_all add: connect_neighbors_def)

lemma insert_query_fields [simp]:
  "latest_path (insert_query s a b) = empty_path"
  "planning_time (insert_query s a b) = 0"
  "sampling_time (insert_query s a b) = sampling_time s"
  "compress_path (insert_query s a b) = compress_path s"
  "the_world (insert_query s a b) = the_world s"
  "max_connection_dist (insert_query s a b) = max_connection_dist s"
  "max_nodes (insert_query s a b) = max_nodes s"
  by (simp_all add: insert_query_def Let_def)

lemma edges_add_node [simp]: "edges (add_node g n) = edges g"
  by (simp add: add_node_def)

lemma nodes_add_edge [simp]: "nodes (add_edge g a b) = nodes g"
  by (simp add: add_edge_def)

lemma nodes_connect_step [simp]: "nodes (connect_step w d n other g) = nodes g"
  by (simp add: connect_step_def)

lemma nodes_fold_connect_step [simp]: "nodes (fold (connect_step w d n) xs g) = nodes g"
  by (induction xs arbitrary: g) simp_all

lemma nodes_connect_graph [simp]: "nodes (connect_graph w d g n) = nodes g"
  by (simp add: connect_graph_def)

lemma node_ids_add_node:
  "node_ids (add_node g n) =
     (if nid n \<in> set (node_ids g) then node_ids g else node_ids g @ [nid n])"
  by (simp add: add_node_def node_ids_def)

lemma has_edge_add_edge:
  "has_edge (add_edge g a b) u v \<longleftrightarrow>
     has_edge g u v \<or> (u = nid a \<and> v = nid b) \<or> (u = nid b \<and> v = nid a)"
  by (auto simp: add_edge_def has_edge_def)

lemma has_edge_connect_step:
  "has_edge (connect_step w d n other g) u v \<longleftrightarrow>
     has_edge g u v \<or>
     (nid other \<noteq> nid n \<and> is_connectable w (pose n) (pose other) d \<and>
      ((u = nid n \<and> v = nid other) \<or> (u = nid other \<and> v = nid n)))"
  by (auto simp: connect_step_def has_edge_add_edge)

lemma has_edge_fold_connect_step:
  "has_edge (fold (connect_step w d n) xs g) u v \<longleftrightarrow>
     has_edge g u v \<or>
     (\<exists>other \<in> set xs. nid other \<noteq> nid n \<and> is_connectable w (pose n) (pose other) d \<and>
        ((u = nid n \<and> v = nid other) \<or> (u = nid other \<and> v = nid n)))"
proof (induction xs arbitrary: g)
  case Nil
  then show ?case by simp
next
  case (Cons a xs)
  show ?case
    unfolding fold_simps Cons.IH has_edge_connect_step by auto
qed

lemma has_edge_connect_graph:
  "has_edge (connect_graph w d g n) u v \<longleftrightarrow>
     has_edge g u v \<or>
     (\<exists>other \<in> set (nodes g). nid other \<noteq> nid n \<and> is_connectable w (pose n) (pose other) d \<and>
        ((u = nid n \<and> v = nid other) \<or> (u = nid other \<and> v = nid n)))"
  by (simp add: connect_graph_def has_edge_fold_connect_step)

lemma edges_connect_step:
  "\<exists>extra. edges (connect_step w d n a g) = edges g @ extra \<and> (\<forall>e \<in> set extra. fst e = nid n)"
proof (cases "nid n \<noteq> nid a \<and> is_connectable w (pose n) (pose a) d \<and> \<not> has_edge g (nid n) (nid a)")
  case True
  then have "edges (connect_step w d n a g) = edges g @ [(nid n, nid a)]"
    by (simp add: connect_step_def add_edge_def)
  then show ?thesis by auto
next
  case False
  then have "edges (connect_step w d n a g) = edges g @ []"
    by (auto simp add: connect_step_def add_edge_def)
  then show ?thesis by (intro exI [of _ "[]"]) simp
qed

lemma edges_fold_connect_step:
  "\<exists>extra. edges (fold (connect_step w d n) xs g) = edges g @ extra \<and>
           (\<forall>e \<in> set extra. fst e = nid n)"
proof (induction xs arbitrary: g)
  case Nil
  then show ?case by simp
next
  case (Cons a xs)
  obtain e1 where e1: "edges (connect_step w d n a g) = edges g @ e1" "\<forall>e \<in> set e1. fst e = nid n"
    using edges_connect_step by blast
  from Cons.IH [of "connect_step w d n a g"] obtain e2 where
    e2: "edges (fold (connect_step w d n) xs (connect_step w d n a g)) =
           edges (connect_step w d n a g) @ e2" "\<forall>e \<in> set e2. fst e = nid n"
    by blast
  show ?case
    by (rule exI [of _ "e1 @ e2"]) (use e1 e2 in auto)
qed

lemma edges_connect_graph:
  "\<exists>extra. edges (connect_graph w d g n) = edges g @ extra \<and> (\<forall>e \<in> set extra. fst e = nid n)"
  unfolding connect_graph_def by (rule edges_fold_connect_step)

lemma start_node_transient:
  "transient g start \<Longrightarrow> nid (start_node (self\<lparr>graph := g\<rparr>) start goal) \<notin> set (node_ids g)"
proof (cases start)
  case (RawPose p)
  have "new_id (node_ids g @ endpoint_ids goal) \<notin> set (node_ids g @ endpoint_ids goal)"
    by (rule new_id_fresh)
  then show ?thesis using RawPose by (simp add: start_node_def mk_node_def)
next
  case (ExistingNode n)
  then show "transient g start \<Longrightarrow> ?thesis" by (simp add: start_node_def)
qed

lemma goal_node_transient:
  assumes "transient g goal"
  shows "nid (goal_node (self\<lparr>graph := g\<rparr>) start goal) \<notin> set (node_ids g)"
proof (cases goal)
  case (RawPose p)
  let ?s = "start_node (self\<lparr>graph := g\<rparr>) start goal"
  have "new_id (node_ids (add_node g ?s)) \<notin> set (node_ids (add_node g ?s))"
    by (rule new_id_fresh)
  moreover have "set (node_ids g) \<subseteq> set (node_ids (add_node g ?s))"
    by (auto simp: node_ids_add_node)
  ultimately show ?thesis using RawPose by (auto simp add: goal_node_def mk_node_def)
next
  case (ExistingNode n)
  then show ?thesis using assms by (simp add: goal_node_def)
qed

lemma graph_insert_query:
  "graph (insert_query self start goal) =
     connect_graph (the_world self) (max_connection_dist self)
       (connect_graph (the_world self) (max_connection_dist self)
          (add_node (add_node (graph self) (start_node self start goal))
             (goal_node self start goal))
          (start_node self start goal))
       (goal_node self start goal)"
  by (simp add: insert_query_def Let_def connect_neighbors_def)

lemma remove_transient_restores:
  assumes closed: "edges_closed G"
    and s: "nid s \<notin> set (node_ids G)" and g: "nid g \<notin> set (node_ids G)"
    and nodes: "nodes Q = nodes (add_node (add_node G s) g)"
    and edges: "edges Q = edges G @ ex" "\<forall>e \<in> set ex. fst e = nid s \<or> fst e = nid g"
  shows "remove_node (remove_node Q s) g = G"
proof -
  have keep: "\<And>e. e \<in> set (edges G) \<Longrightarrow> fst e \<noteq> nid s \<and> snd e \<noteq> nid s \<and> fst e \<noteq> nid g \<and> snd e \<noteq> nid g"
    using closed s g unfolding edges_closed_def by fastforce
  have n1: "filter (\<lambda>m. nid m \<noteq> nid g) (filter (\<lambda>m. nid m \<noteq> nid s) (nodes G)) = nodes G"
    using s g by (simp add: node_ids_def filter_id_conv image_iff) metis
  have "nodes (remove_node (remove_node Q s) g) = nodes G"
    using n1 by (simp add: remove_node_def nodes add_node_def node_ids_def)
  moreover have "filter (\<lambda>(a, b). a \<noteq> nid g \<and> b \<noteq> nid g) (filter (\<lambda>(a, b). a \<noteq> nid s \<and> b \<noteq> nid s) (edges G)) = edges G"
    using keep by (simp add: filter_id_conv split_beta)
  moreover have "filter (\<lambda>(a, b). a \<noteq> nid g \<and> b \<noteq> nid g) (filter (\<lambda>(a, b). a \<noteq> nid s \<and> b \<noteq> nid s) ex) = []"
    using edges(2) by (auto simp: filter_empty_conv split_beta)
  ultimately have "nodes (remove_node (remove_node Q s) g) = nodes G \<and> edges (remove_node (remove_node Q s) g) = edges G"
    by (simp add: remove_node_def edges(1))
  then show ?thesis by (cases G) (auto simp: remove_node_def)
qed

lemma upt_2: "[0 ..< 2] = [0, Suc 0]"
  by (simp add: upt_rec numeral_2_eq_2)

lemma line_planner_eq:
  "line_planner =
     \<lparr>max_connection_dist = 1, max_nodes = 2, the_world = line_world [pt 0 0, pt 1 0],
      compress_path = False, planning_time = 0, sampling_time = 0, latest_path = empty_path,
      graph = \<lparr>nodes = [node1, node2], edges = [(1, 2)]\<rparr>\<rparr>"
  by (simp add: line_planner_def prm_polygon_init_def reset_def upt_2 node1_def node2_def prm_eval)

lemma nodes_remove_node: "set (node_ids (remove_node g n)) = set (node_ids g) - {nid n}"
  by (auto simp: remove_node_def node_ids_def)

lemma has_edge_remove_node:
  "has_edge (remove_node g n) u v \<longleftrightarrow> has_edge g u v \<and> u \<noteq> nid n \<and> v \<noteq> nid n"
  by (auto simp: remove_node_def has_edge_def)

lemma graph_plan_success:
  "query_waypoints ext self start goal \<noteq> [] \<Longrightarrow>
   graph (snd (plan ext t self start goal)) =
     remove_node (remove_node (graph (insert_query self start goal)) (start_node self start goal))
       (goal_node self start goal)"
  by (simp add: plan_def query_waypoints_def Let_def)

lemma add_fresh_node:
  "add_node g (mk_node (node_ids g) p) = g\<lparr>nodes := nodes g @ [mk_node (node_ids g) p]\<rparr>"
  using new_id_fresh [of "node_ids g"] by (simp add: add_node_def mk_node_def)

lemma mk_node_simps [simp]:
  "pose (mk_node used p) = p" "nid (mk_node used p) = new_id used"
  by (simp_all add: mk_node_def)

lemma edges_sample_nodes [simp]: "edges (fst (sample_nodes w xs g)) = edges g"
  by (induction xs arbitrary: g) (simp_all split: option.splits)

lemma distinct_add_node: "distinct (node_ids g) \<Longrightarrow> distinct (node_ids (add_node g n))"
  by (simp add: node_ids_add_node)

lemma distinct_sample_nodes:
  "distinct (node_ids g) \<Longrightarrow> distinct (node_ids (fst (sample_nodes w xs g)))"
  by (induction xs arbitrary: g) (simp_all add: distinct_add_node split: option.splits)

lemma length_sample_nodes:
  "length (nodes (fst (sample_nodes w xs g))) \<le> length (nodes g) + length xs"
proof (induction xs arbitrary: g)
  case Nil
  then show ?case by simp
next
  case (Cons i xs)
  show ?case
  proof (cases "sample_free_robot_pose_uniform w i")
    case None
    then show ?thesis by simp
  next
    case (Some p)
    have "length (nodes (fst (sample_nodes w xs (add_node g (mk_node (node_ids g) p)))))
            \<le> length (nodes (add_node g (mk_node (node_ids g) p))) + length xs"
      by (rule Cons.IH)
    then show ?thesis using Some by (simp add: add_fresh_node)
  qed
qed

lemma sample_nodes_all_found:
  "\<forall>i \<in> set xs. sample_free_robot_pose_uniform w i \<noteq> None \<Longrightarrow>
   snd (sample_nodes w xs g) = [] \<and>
   map (Some \<circ> pose) (nodes (fst (sample_nodes w xs g))) =
     map (Some \<circ> pose) (nodes g) @ map (sample_free_robot_pose_uniform w) xs"
proof (induction xs arbitrary: g)
  case Nil
  then show ?case by simp
next
  case (Cons i xs)
  then obtain p where p: "sample_free_robot_pose_uniform w i = Some p" by auto
  have "snd (sample_nodes w xs (add_node g (mk_node (node_ids g) p))) = [] \<and>
        map (Some \<circ> pose) (nodes (fst (sample_nodes w xs (add_node g (mk_node (node_ids g) p))))) =
          map (Some \<circ> pose) (nodes (add_node g (mk_node (node_ids g) p))) @
          map (sample_free_robot_pose_uniform w) xs"
    using Cons.prems by (intro Cons.IH) simp
  then show ?case using p by (simp add: add_fresh_node comp_def)
qed

lemma sample_nodes_append:
  "\<forall>i \<in> set xs. sample_free_robot_pose_uniform w i \<noteq> None \<Longrightarrow>
   sample_nodes w (xs @ ys) g = sample_nodes w ys (fst (sample_nodes w xs g))"
  by (induction xs arbitrary: g) (auto split: option.splits)

lemma sample_nodes_first_failure:
  assumes "k < n" and "sample_free_robot_pose_uniform w k = None"
    and "\<forall>j < k. sample_free_robot_pose_uniform w j \<noteq> None"
  shows "snd (sample_nodes w [0 ..< n] g) = [CouldNotSampleMoreThan k]"
    and "map (Some \<circ> pose) (nodes (fst (sample_nodes w [0 ..< n] g))) =
           map (Some \<circ> pose) (nodes g) @ map (sample_free_robot_pose_uniform w) [0 ..< k]"
proof -
  have split: "[0 ..< n] = [0 ..< k] @ k # [Suc k ..< n]"
    using assms(1) by (metis less_imp_le_nat upt_add_eq_append upt_conv_Cons le0 le_add_diff_inverse)
  have ok: "\<forall>i \<in> set [0 ..< k]. sample_free_robot_pose_uniform w i \<noteq> None"
    using assms(3) by simp
  have "sample_nodes w [0 ..< n] g =
          sample_nodes w (k # [Suc k ..< n]) (fst (sample_nodes w [0 ..< k] g))"
    unfolding split by (rule sample_nodes_append [OF ok])
  then have eq: "sample_nodes w [0 ..< n] g =
                   (fst (sample_nodes w [0 ..< k] g), [CouldNotSampleMoreThan k])"
    using assms(2) by simp
  show "snd (sample_nodes w [0 ..< n] g) = [CouldNotSampleMoreThan k]"
    by (simp add: eq)
  show "map (Some \<circ> pose) (nodes (fst (sample_nodes w [0 ..< n] g))) =
           map (Some \<circ> pose) (nodes g) @ map (sample_free_robot_pose_uniform w) [0 ..< k]"
    using sample_nodes_all_found [OF ok, of g] by (simp add: eq)
qed

lemma graph_fold_connect_neighbors:
  "graph (fold (\<lambda>n s. connect_neighbors s n) xs s) =
     fold (\<lambda>n g. connect_graph (the_world s) (max_connection_dist s) g n) xs (graph s)"
proof (induction xs arbitrary: s)
  case Nil
  then show ?case by simp
next
  case (Cons a xs)
  show ?case by (simp add: Cons.IH) (simp add: connect_neighbors_def)
qed

lemma nodes_fold_connect_graph [simp]:
  "nodes (fold (\<lambda>n g. connect_graph w d g n) xs g) = nodes g"
  by (induction xs arbitrary: g) simp_all

lemma reset_graph:
  "graph (fst (reset t self)) =
     fold (\<lambda>n g. connect_graph (the_world self) (max_connection_dist self) g n)
       (nodes (fst (sample_nodes (the_world self) [0 ..< nat (max_nodes self)] empty_graph)))
       (fst (sample_nodes (the_world self) [0 ..< nat (max_nodes self)] empty_graph))"
  by (simp add: reset_def Let_def split_beta graph_fold_connect_neighbors)

lemma reset_warnings:
  "snd (reset t self) =
     snd (sample_nodes (the_world self) [0 ..< nat (max_nodes self)] empty_graph)"
  by (simp add: reset_def Let_def split_beta)

lemma has_edge_fold_connect_graph:
  "has_edge (fold (\<lambda>n g. connect_graph w d g n) xs g) u v \<longleftrightarrow>
     has_edge g u v \<or>
     (\<exists>n \<in> set xs. \<exists>other \<in> set (nodes g).
        nid other \<noteq> nid n \<and> is_connectable w (pose n) (pose other) d \<and>
        ((u = nid n \<and> v = nid other) \<or> (u = nid other \<and> v = nid n)))"
proof (induction xs arbitrary: g)
  case Nil
  then show ?case by simp
next
  case (Cons a xs)
  show ?case
    unfolding fold_simps Cons.IH has_edge_connect_graph nodes_connect_graph by auto
qed

lemma distinct_ids_eq:
  "distinct (node_ids g) \<Longrightarrow> A \<in> set (nodes g) \<Longrightarrow> B \<in> set (nodes g) \<Longrightarrow> nid A = nid B \<Longrightarrow> A = B"
  unfolding node_ids_def by (meson distinct_map inj_onD)

lemma sampled_graph:
  "distinct (node_ids (fst (sample_nodes w xs empty_graph)))"
  "edges (fst (sample_nodes w xs empty_graph)) = []"
proof -
  have "distinct (node_ids empty_graph)" by (simp add: empty_graph_def node_ids_def)
  then show "distinct (node_ids (fst (sample_nodes w xs empty_graph)))"
    by (rule distinct_sample_nodes)
  show "edges (fst (sample_nodes w xs empty_graph)) = []"
    by (simp add: empty_graph_def)
qed

lemma reset_nodes:
  "nodes (graph (fst (reset t self))) =
     nodes (fst (sample_nodes (the_world self) [0 ..< nat (max_nodes self)] empty_graph))"
  by (simp add: reset_graph)

lemma reset_has_edge:
  "has_edge (graph (fst (reset t self))) u v \<longleftrightarrow>
     (\<exists>n \<in> set (nodes (graph (fst (reset t self)))).
      \<exists>other \<in> set (nodes (graph (fst (reset t self)))).
        nid other \<noteq> nid n \<and>
        is_connectable (the_world self) (pose n) (pose other) (max_connection_dist self) \<and>
        ((u = nid n \<and> v = nid other) \<or> (u = nid other \<and> v = nid n)))"
  unfolding reset_nodes unfolding reset_graph has_edge_fold_connect_graph
  by (simp add: has_edge_def empty_graph_def)

lemma reset_distinct: "distinct (node_ids (graph (fst (reset t self))))"
  using sampled_graph(1) by (simp add: node_ids_def reset_nodes)

lemma reset_edges_either:
  assumes "A \<in> set (nodes (graph (fst (reset t self))))"
    and "B \<in> set (nodes (graph (fst (reset t self))))" and "A \<noteq> B"
  shows "has_edge (graph (fst (reset t self))) (nid A) (nid B) \<longleftrightarrow>
           is_connectable (the_world self) (pose A) (pose B) (max_connection_dist self) \<or>
           is_connectable (the_world self) (pose B) (pose A) (max_connection_dist self)"
proof -
  have ne: "nid A \<noteq> nid B"
    using distinct_ids_eq [OF reset_distinct assms(1,2)] assms(3) by blast
  have same: "\<And>n. n \<in> set (nodes (graph (fst (reset t self)))) \<Longrightarrow> nid n = nid A \<Longrightarrow> n = A"
    "\<And>n. n \<in> set (nodes (graph (fst (reset t self)))) \<Longrightarrow> nid n = nid B \<Longrightarrow> n = B"
    using distinct_ids_eq [OF reset_distinct] assms(1,2) by blast+
  show ?thesis
    unfolding reset_has_edge [of t self "nid A" "nid B"]
    using assms(1,2) ne same by (metis (no_types))
qed

lemma reset_no_self_loop: "\<not> has_edge (graph (fst (reset t self))) u u"
  unfolding reset_has_edge by auto

lemma plan_success:
  assumes "query_waypoints ext self start goal \<noteq> []"
  shows "fst (plan ext t self start goal) =
           fill_yaws ext \<lparr>poses = (if compress_path self
              then reduce_waypoints_polygon ext (the_world self)
                     (map pose (query_waypoints ext self start goal))
              else map pose (query_waypoints ext self start goal))\<rparr>"
  using assms by (simp add: plan_def query_waypoints_def Let_def)

lemma reset_fields [simp]:
  "compress_path (fst (reset t self)) = compress_path self"
  "the_world (fst (reset t self)) = the_world self"
  "max_connection_dist (fst (reset t self)) = max_connection_dist self"
  "max_nodes (fst (reset t self)) = max_nodes self"
proof -
  have f: "compress_path (fold (\<lambda>n s. connect_neighbors s n) xs s) = compress_path s \<and>
        the_world (fold (\<lambda>n s. connect_neighbors s n) xs s) = the_world s \<and>
        max_connection_dist (fold (\<lambda>n s. connect_neighbors s n) xs s) = max_connection_dist s \<and>
        max_nodes (fold (\<lambda>n s. connect_neighbors s n) xs s) = max_nodes s" for xs s
    by (induction xs arbitrary: s) simp_all
  show "compress_path (fst (reset t self)) = compress_path self"
  "the_world (fst (reset t self)) = the_world self"
  "max_connection_dist (fst (reset t self)) = max_connection_dist self"
  "max_nodes (fst (reset t self)) = max_nodes self"
    by (simp_all add: reset_def Let_def split_beta f)
qed

lemma reset_no_nodes: "max_nodes self = 0 \<Longrightarrow> graph (fst (reset t self)) = empty_graph"
  by (simp add: reset_graph) (simp add: empty_graph_def)

lemma two_node_route:
  assumes "is_route g s t ws" and "nodes g = [s, t]" and "nid s \<noteq> nid t"
  shows "ws = [s, t]"
proof -
  from assms(1) have ne: "ws \<noteq> []" and h: "nid (hd ws) = nid s" and l: "nid (last ws) = nid t"
    and sub: "set ws \<subseteq> {s, t}" and d: "distinct (map nid ws)"
    by (simp_all add: is_route_def assms(2))
  from ne obtain x rest where ws: "ws = x # rest" by (cases ws) auto
  have x: "x = s" using h sub assms(3) by (auto simp: ws)
  have "rest \<noteq> []" using l assms(3) x by (auto simp: ws)
  then obtain y rest' where rest: "rest = y # rest'" by (cases rest) auto
  have y: "y = t" using sub d x by (auto simp: ws rest)
  have "rest' = []"
  proof (cases rest')
    case Nil
    then show ?thesis .
  next
    case (Cons z zs)
    then have "z \<in> {s, t}" using sub by (auto simp: ws rest)
    then show ?thesis using d x y Cons by (auto simp: ws rest)
  qed
  then show ?thesis by (simp add: ws rest x y)
qed

lemma line_world_symmetric: "symmetric_oracle (line_world ps)"
  by (simp add: symmetric_oracle_def line_world_def abs_minus_commute)

lemma line_planner_reset:
  "fst (reset 0 (unbuilt_planner 2 (line_world [pt 0 0, pt 1 0]))) = line_planner"
  by (simp add: line_planner_def prm_polygon_init_def unbuilt_planner_def)


lemma start_node_fresh:
  "start = RawPose p \<Longrightarrow>
   nid (start_node P start goal) \<notin> set (node_ids (graph P)) \<union> set (endpoint_ids goal)"
  using new_id_fresh [of "node_ids (graph P) @ endpoint_ids goal"]
  by (simp add: start_node_def)

lemma set_ids_add_node: "set (node_ids (add_node g n)) = insert (nid n) (set (node_ids g))"
  by (auto simp: node_ids_add_node)

lemma goal_node_fresh:
  "goal = RawPose q \<Longrightarrow>
   nid (goal_node P start goal) \<notin>
     insert (nid (start_node P start goal)) (set (node_ids (graph P)))"
  using new_id_fresh [of "node_ids (add_node (graph P) (start_node P start goal))"]
  by (simp add: goal_node_def set_ids_add_node)

lemma endpoint_facts:
  assumes "endpoints_ok (graph P) start goal"
  shows "nid (start_node P start goal) \<in> set (node_ids (graph P)) \<longrightarrow>
           start_node P start goal \<in> set (nodes (graph P))"
    and "nid (goal_node P start goal) \<in> set (node_ids (graph P)) \<longrightarrow>
           goal_node P start goal \<in> set (nodes (graph P))"
    and "nid (start_node P start goal) = nid (goal_node P start goal) \<longrightarrow>
           start_node P start goal = goal_node P start goal"
proof -
  show "nid (start_node P start goal) \<in> set (node_ids (graph P)) \<longrightarrow>
           start_node P start goal \<in> set (nodes (graph P))"
  proof (cases start)
    case (RawPose p)
    then show ?thesis using start_node_fresh [OF RawPose, of P goal] by simp
  next
    case (ExistingNode n)
    then show ?thesis using assms by (simp add: endpoints_ok_def start_node_def)
  qed
  show "nid (goal_node P start goal) \<in> set (node_ids (graph P)) \<longrightarrow>
           goal_node P start goal \<in> set (nodes (graph P))"
  proof (cases goal)
    case (RawPose q)
    then show ?thesis using goal_node_fresh [OF RawPose, of P start] by simp
  next
    case (ExistingNode n)
    then show ?thesis using assms by (simp add: endpoints_ok_def goal_node_def)
  qed
  show "nid (start_node P start goal) = nid (goal_node P start goal) \<longrightarrow>
           start_node P start goal = goal_node P start goal"
  proof (cases goal)
    case (RawPose q)
    then show ?thesis using goal_node_fresh [OF RawPose, of P start] by auto
  next
    case g: (ExistingNode m)
    show ?thesis
    proof (cases start)
      case (RawPose p)
      then show ?thesis using start_node_fresh [OF RawPose, of P goal] g
        by (auto simp: goal_node_def)
    next
      case (ExistingNode n)
      then show ?thesis using assms g by (simp add: endpoints_ok_def start_node_def goal_node_def)
    qed
  qed
qed

lemma query_graph_oracle:
  assumes sym: "symmetric_oracle w" and og: "oracle_graph w d G"
    and s_ok: "nid s \<in> set (node_ids G) \<longrightarrow> s \<in> set (nodes G)"
    and g_ok: "nid g \<in> set (node_ids G) \<longrightarrow> g \<in> set (nodes G)"
    and sg: "nid s = nid g \<longrightarrow> s = g"
  shows "oracle_graph w d (connect_graph w d (connect_graph w d (add_node (add_node G s) g) s) g)"
    and "set (nodes (connect_graph w d (connect_graph w d (add_node (add_node G s) g) s) g)) =
           insert s (insert g (set (nodes G)))"
proof -
  let ?A = "add_node (add_node G s) g"
  let ?Q = "connect_graph w d (connect_graph w d ?A s) g"
  let ?N = "insert s (insert g (set (nodes G)))"
  have nA: "set (nodes ?A) = ?N"
    using s_ok g_ok sg by (auto simp: add_node_def node_ids_def)
  have dA: "distinct (node_ids ?A)"
    using og by (simp add: oracle_graph_def distinct_add_node)
  show nQ: "set (nodes ?Q) = ?N" by (simp add: nA)
  have c_sym: "\<And>a b. is_connectable w a b d = is_connectable w b a d"
    using sym by (simp add: symmetric_oracle_def)
  have eG: "\<And>u v. has_edge G u v \<longleftrightarrow>
      (\<exists>X \<in> set (nodes G). \<exists>Y \<in> set (nodes G).
         nid X = u \<and> nid Y = v \<and> u \<noteq> v \<and> is_connectable w (pose X) (pose Y) d)"
    using og by (simp add: oracle_graph_def)
  have eA: "\<And>u v. has_edge ?A u v = has_edge G u v"
    by (simp add: has_edge_def)
  have eQ: "\<And>u v. has_edge ?Q u v \<longleftrightarrow> has_edge G u v \<or>
      (\<exists>other \<in> ?N. nid other \<noteq> nid s \<and> is_connectable w (pose s) (pose other) d \<and>
         ((u = nid s \<and> v = nid other) \<or> (u = nid other \<and> v = nid s))) \<or>
      (\<exists>other \<in> ?N. nid other \<noteq> nid g \<and> is_connectable w (pose g) (pose other) d \<and>
         ((u = nid g \<and> v = nid other) \<or> (u = nid other \<and> v = nid g)))"
    unfolding has_edge_connect_graph nodes_connect_graph nA eA by blast
  have "has_edge ?Q u v \<longleftrightarrow>
      (\<exists>X \<in> ?N. \<exists>Y \<in> ?N. nid X = u \<and> nid Y = v \<and> u \<noteq> v \<and>
         is_connectable w (pose X) (pose Y) d)" for u v
  proof
    assume "has_edge ?Q u v"
    then consider (old) "has_edge G u v"
      | (s) other where "other \<in> ?N" "nid other \<noteq> nid s" "is_connectable w (pose s) (pose other) d"
          "(u = nid s \<and> v = nid other) \<or> (u = nid other \<and> v = nid s)"
      | (g) other where "other \<in> ?N" "nid other \<noteq> nid g" "is_connectable w (pose g) (pose other) d"
          "(u = nid g \<and> v = nid other) \<or> (u = nid other \<and> v = nid g)"
      unfolding eQ by blast
    then show "\<exists>X \<in> ?N. \<exists>Y \<in> ?N. nid X = u \<and> nid Y = v \<and> u \<noteq> v \<and>
         is_connectable w (pose X) (pose Y) d"
    proof cases
      case old
      then obtain X Y where "X \<in> set (nodes G)" "Y \<in> set (nodes G)" "nid X = u" "nid Y = v"
        "u \<noteq> v" "is_connectable w (pose X) (pose Y) d"
        unfolding eG by blast
      then show ?thesis by blast
    next
      case s
      have "s \<in> ?N" by simp
      from s(4) show ?thesis
      proof
        assume "u = nid s \<and> v = nid other"
        then show ?thesis using s(1,2,3) \<open>s \<in> ?N\<close> by metis
      next
        assume "u = nid other \<and> v = nid s"
        then show ?thesis using s(1,2,3) \<open>s \<in> ?N\<close> c_sym by metis
      qed
    next
      case g
      have "g \<in> ?N" by simp
      from g(4) show ?thesis
      proof
        assume "u = nid g \<and> v = nid other"
        then show ?thesis using g(1,2,3) \<open>g \<in> ?N\<close> by metis
      next
        assume "u = nid other \<and> v = nid g"
        then show ?thesis using g(1,2,3) \<open>g \<in> ?N\<close> c_sym by metis
      qed
    qed
  next
    assume "\<exists>X \<in> ?N. \<exists>Y \<in> ?N. nid X = u \<and> nid Y = v \<and> u \<noteq> v \<and>
         is_connectable w (pose X) (pose Y) d"
    then obtain X Y where XY: "X \<in> ?N" "Y \<in> ?N" "nid X = u" "nid Y = v" "u \<noteq> v"
      "is_connectable w (pose X) (pose Y) d"
      by blast
    have YX: "is_connectable w (pose Y) (pose X) d" using XY(6) c_sym by simp
    consider "X = s" | "Y = s" | "X = g" | "Y = g"
      | "X \<in> set (nodes G)" "Y \<in> set (nodes G)"
      using XY(1,2) by blast
    then show "has_edge ?Q u v"
    proof cases
      case 1
      then show ?thesis unfolding eQ using XY by metis
    next
      case 2
      then show ?thesis unfolding eQ using XY YX by metis
    next
      case 3
      then show ?thesis unfolding eQ using XY by metis
    next
      case 4
      then show ?thesis unfolding eQ using XY YX by metis
    next
      case 5
      then have "has_edge G u v" unfolding eG using XY by blast
      then show ?thesis unfolding eQ by blast
    qed
  qed
  moreover have "distinct (node_ids ?Q)" using dA by (simp add: node_ids_def)
  ultimately show "oracle_graph w d ?Q"
    unfolding oracle_graph_def nQ by blast
qed

lemma set_nodes_remove_node:
  "set (nodes (remove_node g n)) = {m \<in> set (nodes g). nid m \<noteq> nid n}"
  by (auto simp: remove_node_def)

lemma remove_node_oracle:
  assumes "oracle_graph w d g"
  shows "oracle_graph w d (remove_node g n)"
proof -
  have "distinct (node_ids (remove_node g n))"
    using assms by (simp add: oracle_graph_def remove_node_def node_ids_def distinct_map_filter)
  moreover have "has_edge (remove_node g n) u v \<longleftrightarrow>
      (\<exists>X \<in> set (nodes (remove_node g n)). \<exists>Y \<in> set (nodes (remove_node g n)).
         nid X = u \<and> nid Y = v \<and> u \<noteq> v \<and> is_connectable w (pose X) (pose Y) d)" for u v
    unfolding has_edge_remove_node set_nodes_remove_node
    using assms unfolding oracle_graph_def by auto
  ultimately show ?thesis unfolding oracle_graph_def by blast
qed


lemma plan_fields [simp]:
  "the_world (snd (plan ext t P start goal)) = the_world P"
  "max_connection_dist (snd (plan ext t P start goal)) = max_connection_dist P"
  "compress_path (snd (plan ext t P start goal)) = compress_path P"
  by (simp_all add: plan_def Let_def)

lemma graph_plan_failure:
  "query_waypoints ext P start goal = [] \<Longrightarrow>
   graph (snd (plan ext t P start goal)) = graph (insert_query P start goal)"
  by (simp add: plan_def query_waypoints_def Let_def)

lemma plan_path:
  "fst (plan ext t P start goal) =
     (if query_waypoints ext P start goal = [] then empty_path
      else fill_yaws ext \<lparr>poses = (if compress_path P
              then reduce_waypoints_polygon ext (the_world P)
                     (map pose (query_waypoints ext P start goal))
              else map pose (query_waypoints ext P start goal))\<rparr>)"
  by (simp add: plan_def query_waypoints_def Let_def)








lemma plan_keeps_oracle_graph:
  assumes sym: "symmetric_oracle (the_world P)"
    and og: "oracle_graph (the_world P) (max_connection_dist P) (graph P)"
    and ok: "endpoints_ok (graph P) start goal"
  shows "oracle_graph (the_world P) (max_connection_dist P) (graph (snd (plan ext t P start goal)))"
proof -
  have og1: "oracle_graph (the_world P) (max_connection_dist P) (graph (insert_query P start goal))"
    unfolding graph_insert_query by (rule query_graph_oracle [OF sym og endpoint_facts [OF ok]])
  show ?thesis
  proof (cases "query_waypoints ext P start goal = []")
    case True
    then show ?thesis using og1 by (simp add: graph_plan_failure)
  next
    case False
    then show ?thesis using og1 by (simp add: graph_plan_success remove_node_oracle)
  qed
qed












lemma fill_from_position: "map position (fill_from prev ps) = map position ps"
  by (induction prev ps rule: fill_from.induct) (simp_all add: position_def)

lemma fill_from_empty [simp]: "fill_from prev ps = [] \<longleftrightarrow> ps = []"
  by (induction prev ps rule: fill_from.induct) simp_all

lemma fill_from_last: "ps \<noteq> [] \<Longrightarrow> last (fill_from prev ps) = last ps"
  by (induction prev ps rule: fill_from.induct) simp_all

lemma spec_fill_heading: "heading_fill spec_fill_yaws"
  by (simp add: heading_fill_def spec_fill_yaws_def fill_from_position split: list.splits)

lemma spec_fill_endpoints: "keeps_endpoints spec_fill_yaws"
  by (auto simp: keeps_endpoints_def spec_fill_yaws_def fill_from_last split: list.splits)

lemma turned_planner_eq:
  "turned_planner =
     \<lparr>max_connection_dist = 1, max_nodes = 1, the_world = line_world [turned],
      compress_path = False, planning_time = 0, sampling_time = 0, latest_path = empty_path,
      graph = \<lparr>nodes = [\<lparr>nid = 1, pose = turned, parent = None\<rparr>], edges = []\<rparr>\<rparr>"
  by (simp add: turned_planner_def prm_polygon_init_def reset_def turned_def prm_eval)

lemma turned_waypoints:
  "query_waypoints filling_collab turned_planner (RawPose (pt (-1) 0)) (RawPose (pt 1 0)) =
     [\<lparr>nid = 2, pose = pt (-1) 0, parent = None\<rparr>, \<lparr>nid = 1, pose = turned, parent = None\<rparr>,
      \<lparr>nid = 3, pose = pt 1 0, parent = None\<rparr>]"
  by (simp add: turned_planner_eq filling_collab_def via_search_def turned_def prm_eval)

lemma turned_path:
  "poses (fst (plan filling_collab 3 turned_planner (RawPose (pt (-1) 0)) (RawPose (pt 1 0)))) =
     [pt (-1) 0, pt 0 0, pt 1 0]"
  unfolding plan_path turned_waypoints
  by (simp add: turned_planner_eq filling_collab_def spec_fill_yaws_def arctan2_def pt_def turned_def)

lemma two_poses:
  assumes "map position ps = [u, v]" and "hd ps = a" and "last ps = b"
  shows "ps = [a, b]"
proof -
  from assms(1) have "length ps = 2" by (metis length_map length_Cons list.size(3) numeral_2_eq_2)
  then obtain x y where "ps = [x, y]"
    by (metis (no_types) length_0_conv length_Suc_conv numeral_2_eq_2)
  with assms(2,3) show ?thesis by simp
qed

lemma filling_collab_fill:
  "heading_fill (fill_yaws filling_collab)" "keeps_endpoints (fill_yaws filling_collab)"
  using spec_fill_heading spec_fill_endpoints by (simp_all add: filling_collab_def)

section \<open>The facade rejects the grid variant\<close>

text \<open>
  C8. Whenever the grid variant is requested, construction of the facade planner ends
  in the error \<^verbatim>\<open>NotImplementedError\<close>: no planner object is produced, and no other
  variant is built in its place.
\<close>

theorem grid_variant_rejected:
  "cfg_grid cfg = Some True \<Longrightarrow>
   prm_planner_init t cfg = Inl (NotImplementedError ''Grid based PRM is not supported. '')"
  by (simp add: prm_planner_init_def)

theorem grid_variant_rejected_witness:
  "prm_planner_init 0
     \<lparr>cfg_grid = Some True, cfg_compress_path = None, cfg_max_connection_dist = None,
      cfg_max_nodes = None, cfg_world = line_world []\<rparr>
   = Inl (NotImplementedError ''Grid based PRM is not supported. '')"
  using grid_variant_rejected
    [of "\<lparr>cfg_grid = Some True, cfg_compress_path = None, cfg_max_connection_dist = None,
          cfg_max_nodes = None, cfg_world = line_world []\<rparr>" 0]
  by simp

section \<open>An unreachable goal\<close>

text \<open>
  C3. When the search at line 105 returns no waypoints, \<^verbatim>\<open>plan\<close> returns a Path with
  zero Poses (it returns a value: the model of \<^verbatim>\<open>plan\<close> has no error branch, as the
  source has no \<^verbatim>\<open>raise\<close>), and \<^verbatim>\<open>planning_time\<close> stays at the 0 it was reset to.
\<close>

theorem plan_unreachable:
  "query_waypoints ext self start goal = [] \<Longrightarrow>
   poses (fst (plan ext t self start goal)) = [] \<and>
   planning_time (snd (plan ext t self start goal)) = 0"
  by (simp add: plan_def query_waypoints_def Let_def empty_path_def)

lemma far_apart_unreachable:
  "query_waypoints plain_collab empty_planner (RawPose (pt 0 0)) (RawPose (pt 5 0)) = []"
  by (simp add: empty_planner_eq prm_eval)

theorem plan_unreachable_witness:
  "poses (fst (plan plain_collab 3 empty_planner (RawPose (pt 0 0)) (RawPose (pt 5 0)))) = [] \<and>
   planning_time (snd (plan plain_collab 3 empty_planner (RawPose (pt 0 0)) (RawPose (pt 5 0)))) = 0"
  using plan_unreachable [OF far_apart_unreachable, of 3] .

section \<open>The roadmap after a query\<close>

text \<open>
  C2, for endpoints that \<^verbatim>\<open>plan\<close> brings into the graph itself. When start and goal are
  each given as a raw Pose, or as a Node that is not in the roadmap, and the search
  succeeds, the graph \<^verbatim>\<open>plan\<close> leaves behind is the graph it found: the same nodes and
  the same edges, in the same order. The roadmap is assumed to satisfy the graph
  invariant (the endpoints of every edge are nodes of it).
\<close>

theorem plan_restores_roadmap:
  assumes "edges_closed (graph self)"
    and "transient (graph self) start" and "transient (graph self) goal"
    and "query_waypoints ext self start goal \<noteq> []"
  shows "graph (snd (plan ext t self start goal)) = graph self"
proof -
  let ?G = "graph self" and ?s = "start_node self start goal" and ?g = "goal_node self start goal"
  let ?w = "the_world self" and ?d = "max_connection_dist self"
  let ?A = "add_node (add_node ?G ?s) ?g"
  have s: "nid ?s \<notin> set (node_ids ?G)"
    using start_node_transient [OF assms(2), of self goal] by simp
  have g: "nid ?g \<notin> set (node_ids ?G)"
    using goal_node_transient [OF assms(3), of self start] by simp
  obtain e1 where e1: "edges (connect_graph ?w ?d ?A ?s) = edges ?A @ e1" "\<forall>e \<in> set e1. fst e = nid ?s"
    using edges_connect_graph by blast
  obtain e2 where e2: "edges (connect_graph ?w ?d (connect_graph ?w ?d ?A ?s) ?g) =
      edges (connect_graph ?w ?d ?A ?s) @ e2" "\<forall>e \<in> set e2. fst e = nid ?g"
    using edges_connect_graph by blast
  let ?Q = "graph (insert_query self start goal)"
  have "remove_node (remove_node ?Q ?s) ?g = ?G"
  proof (rule remove_transient_restores [OF assms(1) s g, where ex = "e1 @ e2"])
    show "nodes ?Q = nodes ?A" by (simp add: graph_insert_query)
    show "edges ?Q = edges ?G @ e1 @ e2" by (simp add: graph_insert_query e1 e2)
    show "\<forall>e \<in> set (e1 @ e2). fst e = nid ?s \<or> fst e = nid ?g" using e1 e2 by auto
  qed
  then show ?thesis
    using assms(4) by (simp add: plan_def query_waypoints_def Let_def)
qed

lemma near_reachable:
  "query_waypoints plain_collab line_planner (RawPose (pt (-1) 0)) (RawPose (pt 0 0)) \<noteq> []"
  by (simp add: line_planner_eq node1_def node2_def prm_eval)

lemma line_planner_closed: "edges_closed (graph line_planner)"
  by (simp add: line_planner_eq edges_closed_def node_ids_def node1_def node2_def)

theorem plan_restores_roadmap_witness:
  "edges_closed (graph line_planner) \<and>
   query_waypoints plain_collab line_planner (RawPose (pt (-1) 0)) (RawPose (pt 0 0)) \<noteq> [] \<and>
   graph (snd (plan plain_collab 3 line_planner (RawPose (pt (-1) 0)) (RawPose (pt 0 0)))) =
   graph line_planner"
  using line_planner_closed near_reachable
    plan_restores_roadmap [OF line_planner_closed _ _ near_reachable, of 3]
  by simp

text \<open>
  C2 for every start and goal fails when the start is a Node of the roadmap: the query
  succeeds and the node is gone from the roadmap afterwards.
\<close>

theorem member_start_not_restored:
  "query_waypoints plain_collab line_planner (ExistingNode node1) (RawPose (pt (-1) 0)) \<noteq> [] \<and>
   node1 \<in> set (nodes (graph line_planner)) \<and>
   node1 \<notin> set (nodes (graph (snd (plan plain_collab 3 line_planner (ExistingNode node1)
                                          (RawPose (pt (-1) 0))))))"
  by (simp add: plan_def line_planner_eq node1_def node2_def prm_eval)

text \<open>
  C1 asks that the roadmap have the same nodes and edges after every call of \<^verbatim>\<open>plan\<close>,
  whether a path is found or not. On a query that finds no path, \<^verbatim>\<open>plan\<close> returns at
  line 108, before the removals of lines 116 and 117 that the successful query runs:
  the two query nodes stay in the roadmap, which had two nodes before the call and has
  four after it.
\<close>

theorem failed_query_leaves_nodes:
  "query_waypoints plain_collab line_planner (RawPose (pt 5 0)) (RawPose (pt 9 0)) = [] \<and>
   length (nodes (graph line_planner)) = 2 \<and>
   nodes (graph (snd (plan plain_collab 3 line_planner (RawPose (pt 5 0)) (RawPose (pt 9 0))))) =
     [node1, node2, far3, far4]"
  by (simp add: plan_def line_planner_eq node1_def node2_def far3_def far4_def prm_eval)

text \<open>
  C10. When start or goal is given as a Node that is in the roadmap and the search
  succeeds, that node is no longer in the roadmap when \<^verbatim>\<open>plan\<close> returns, and no edge
  of the roadmap touches it.
\<close>

theorem member_endpoint_removed:
  assumes "n \<in> set (nodes (graph self))"
    and "start = ExistingNode n \<or> goal = ExistingNode n"
    and "query_waypoints ext self start goal \<noteq> []"
  shows "nid n \<notin> set (node_ids (graph (snd (plan ext t self start goal)))) \<and>
         (\<forall>v. \<not> has_edge (graph (snd (plan ext t self start goal))) (nid n) v)"
proof -
  have "start_node self start goal = n \<or> goal_node self start goal = n"
    using assms(2) by (auto simp: start_node_def goal_node_def)
  then show ?thesis
    unfolding graph_plan_success [OF assms(3)]
    by (auto simp: nodes_remove_node has_edge_remove_node)
qed

theorem member_endpoint_removed_witness:
  "node1 \<in> set (nodes (graph line_planner)) \<and>
   nid node1 \<notin> set (node_ids (graph (snd (plan plain_collab 3 line_planner (ExistingNode node1)
                                          (RawPose (pt (-1) 0)))))) \<and>
   (\<forall>v. \<not> has_edge (graph (snd (plan plain_collab 3 line_planner (ExistingNode node1)
                                   (RawPose (pt (-1) 0))))) (nid node1) v)"
proof -
  have m: "node1 \<in> set (nodes (graph line_planner))"
    by (simp add: line_planner_eq)
  have q: "query_waypoints plain_collab line_planner (ExistingNode node1) (RawPose (pt (-1) 0)) \<noteq> []"
    by (simp add: line_planner_eq node1_def node2_def prm_eval)
  show ?thesis
    using m member_endpoint_removed [OF m _ q, of 3] by simp
qed

section \<open>Building the roadmap\<close>

text \<open>
  C5. A roadmap built with \<open>max_nodes = N\<close> has at most \<open>N\<close> nodes. If none of the first
  \<open>N\<close> sampling attempts fails it has exactly \<open>N\<close> and no warning is emitted. If attempt
  \<open>k\<close> is the first to fail, sampling stops there: the roadmap holds the \<open>k\<close> poses
  sampled before it, in order, and the one warning emitted reports \<open>k\<close>.
\<close>

theorem build_node_count:
  "length (nodes (graph (fst (reset t self)))) \<le> nat (max_nodes self) \<and>
   ((\<forall>i < nat (max_nodes self). sample_free_robot_pose_uniform (the_world self) i \<noteq> None) \<longrightarrow>
      length (nodes (graph (fst (reset t self)))) = nat (max_nodes self) \<and>
      snd (reset t self) = []) \<and>
   (\<forall>k < nat (max_nodes self).
      sample_free_robot_pose_uniform (the_world self) k = None \<and>
      (\<forall>j < k. sample_free_robot_pose_uniform (the_world self) j \<noteq> None) \<longrightarrow>
        length (nodes (graph (fst (reset t self)))) = k \<and>
        map (Some \<circ> pose) (nodes (graph (fst (reset t self)))) =
          map (sample_free_robot_pose_uniform (the_world self)) [0 ..< k] \<and>
        snd (reset t self) = [CouldNotSampleMoreThan k])"
proof -
  let ?w = "the_world self" and ?n = "nat (max_nodes self)"
  let ?S = "sample_nodes ?w [0 ..< ?n] empty_graph"
  have nodes: "nodes (graph (fst (reset t self))) = nodes (fst ?S)"
    by (simp add: reset_graph)
  have bound: "length (nodes (fst ?S)) \<le> ?n"
    using length_sample_nodes [of ?w "[0 ..< ?n]" empty_graph] by (simp add: empty_graph_def)
  have full: "length (nodes (fst ?S)) = ?n \<and> snd ?S = []"
    if "\<forall>i < ?n. sample_free_robot_pose_uniform ?w i \<noteq> None"
  proof -
    have "\<forall>i \<in> set [0 ..< ?n]. sample_free_robot_pose_uniform ?w i \<noteq> None"
      using that by simp
    from sample_nodes_all_found [OF this, of empty_graph]
    have "snd ?S = []"
      and m: "map (Some \<circ> pose) (nodes (fst ?S)) = map (sample_free_robot_pose_uniform ?w) [0 ..< ?n]"
      by (simp_all add: empty_graph_def)
    from m have "length (map (Some \<circ> pose) (nodes (fst ?S))) = length (map (sample_free_robot_pose_uniform ?w) [0 ..< ?n])"
      by simp
    then show ?thesis using \<open>snd ?S = []\<close> by simp
  qed
  have short: "length (nodes (fst ?S)) = k \<and>
        map (Some \<circ> pose) (nodes (fst ?S)) = map (sample_free_robot_pose_uniform ?w) [0 ..< k] \<and>
        snd ?S = [CouldNotSampleMoreThan k]"
    if "k < ?n" "sample_free_robot_pose_uniform ?w k = None"
      "\<forall>j < k. sample_free_robot_pose_uniform ?w j \<noteq> None" for k
  proof -
    from sample_nodes_first_failure [OF that, of empty_graph]
    have w: "snd ?S = [CouldNotSampleMoreThan k]"
      and m: "map (Some \<circ> pose) (nodes (fst ?S)) = map (sample_free_robot_pose_uniform ?w) [0 ..< k]"
      by (simp_all add: empty_graph_def)
    from m have "length (map (Some \<circ> pose) (nodes (fst ?S))) = length (map (sample_free_robot_pose_uniform ?w) [0 ..< k])"
      by simp
    then have "length (nodes (fst ?S)) = k" by simp
    with w m show ?thesis by blast
  qed
  show ?thesis
    unfolding nodes reset_warnings using bound full short by blast
qed

lemma short_sampler:
  "(2::nat) < nat (max_nodes (unbuilt_planner 5 (line_world [pt 0 0, pt 1 0])))"
  "sample_free_robot_pose_uniform (the_world (unbuilt_planner 5 (line_world [pt 0 0, pt 1 0]))) 2 = None"
  "\<forall>j < 2. sample_free_robot_pose_uniform (the_world (unbuilt_planner 5 (line_world [pt 0 0, pt 1 0]))) j \<noteq> None"
  by (simp_all add: unbuilt_planner_def line_world_def)

lemma full_sampler:
  "\<forall>i < nat (max_nodes (unbuilt_planner 2 (line_world [pt 0 0, pt 1 0]))).
     sample_free_robot_pose_uniform (the_world (unbuilt_planner 2 (line_world [pt 0 0, pt 1 0]))) i \<noteq> None"
  by (simp add: unbuilt_planner_def line_world_def)

theorem build_node_count_witness:
  "length (nodes (graph (fst (reset 0 (unbuilt_planner 2 (line_world [pt 0 0, pt 1 0])))))) = 2 \<and>
   snd (reset 0 (unbuilt_planner 2 (line_world [pt 0 0, pt 1 0]))) = [] \<and>
   length (nodes (graph (fst (reset 0 (unbuilt_planner 5 (line_world [pt 0 0, pt 1 0])))))) = 2 \<and>
   snd (reset 0 (unbuilt_planner 5 (line_world [pt 0 0, pt 1 0]))) = [CouldNotSampleMoreThan 2]"
proof -
  have "length (nodes (graph (fst (reset 0 (unbuilt_planner 2 (line_world [pt 0 0, pt 1 0])))))) =
          nat (max_nodes (unbuilt_planner 2 (line_world [pt 0 0, pt 1 0]))) \<and>
        snd (reset 0 (unbuilt_planner 2 (line_world [pt 0 0, pt 1 0]))) = []"
    using build_node_count [of 0 "unbuilt_planner 2 (line_world [pt 0 0, pt 1 0])"] full_sampler
    by blast
  moreover have "length (nodes (graph (fst (reset 0 (unbuilt_planner 5 (line_world [pt 0 0, pt 1 0])))))) = 2 \<and>
        snd (reset 0 (unbuilt_planner 5 (line_world [pt 0 0, pt 1 0]))) = [CouldNotSampleMoreThan 2]"
    using build_node_count [of 0 "unbuilt_planner 5 (line_world [pt 0 0, pt 1 0])"] short_sampler
    by blast
  ultimately show ?thesis by (simp add: unbuilt_planner_def)
qed

text \<open>
  C4. After \<^verbatim>\<open>reset\<close>, for a symmetric oracle (as the specification assumes), two distinct
  nodes \<open>A\<close> and \<open>B\<close> of the roadmap are joined by an edge exactly when the oracle
  connects their poses within \<^verbatim>\<open>max_connection_dist\<close>, whatever the order in which they
  were sampled; and no node is joined to itself.
\<close>

theorem build_edges:
  assumes "symmetric_oracle (the_world self)"
    and "A \<in> set (nodes (graph (fst (reset t self))))"
    and "B \<in> set (nodes (graph (fst (reset t self))))" and "A \<noteq> B"
  shows "(has_edge (graph (fst (reset t self))) (nid A) (nid B) \<longleftrightarrow>
            is_connectable (the_world self) (pose A) (pose B) (max_connection_dist self)) \<and>
         (\<forall>u. \<not> has_edge (graph (fst (reset t self))) u u)"
  using reset_edges_either [OF assms(2,3,4)] reset_no_self_loop assms(1)
  unfolding symmetric_oracle_def by blast

theorem build_edges_witness:
  "symmetric_oracle (line_world [pt 0 0, pt 1 0]) \<and>
   node1 \<in> set (nodes (graph line_planner)) \<and> node2 \<in> set (nodes (graph line_planner)) \<and>
   node1 \<noteq> node2 \<and>
   is_connectable (line_world [pt 0 0, pt 1 0]) (pose node1) (pose node2) 1 \<and>
   has_edge (graph line_planner) (nid node1) (nid node2) \<and>
   (\<forall>u. \<not> has_edge (graph line_planner) u u)"
proof -
  have w: "the_world (unbuilt_planner 2 (line_world [pt 0 0, pt 1 0])) = line_world [pt 0 0, pt 1 0]"
    "max_connection_dist (unbuilt_planner 2 (line_world [pt 0 0, pt 1 0])) = 1"
    by (simp_all add: unbuilt_planner_def)
  have m: "node1 \<in> set (nodes (graph line_planner))" "node2 \<in> set (nodes (graph line_planner))"
    "node1 \<noteq> node2"
    by (simp_all add: line_planner_eq node1_def node2_def)
  have c: "is_connectable (line_world [pt 0 0, pt 1 0]) (pose node1) (pose node2) 1"
    by (simp add: line_world_def node1_def node2_def pt_def)
  show ?thesis
    using build_edges [of "unbuilt_planner 2 (line_world [pt 0 0, pt 1 0])" node1 0 node2]
      line_world_symmetric [of "[pt 0 0, pt 1 0]"] m c
    unfolding line_planner_reset w by blast
qed

section \<open>The path returned\<close>

text \<open>
  C6, with the headings left to \<^verbatim>\<open>fill_yaws\<close>. With \<^verbatim>\<open>compress_path\<close> off, a successful
  \<^verbatim>\<open>plan\<close> builds its Path from the poses of the nodes the search returned, all of them
  and in that order, and hands it to \<^verbatim>\<open>fill_yaws\<close> (line 114) as every successful query
  does. The returned Path has one Pose for each of those nodes, in the same order and at
  the same position, and its first and last Pose are the Poses of the first and last
  node; the headings between them are the ones \<^verbatim>\<open>fill_yaws\<close> derives.
\<close>

theorem uncompressed_path:
  assumes "\<not> compress_path self" and "query_waypoints ext self start goal \<noteq> []"
    and "heading_fill (fill_yaws ext)" and "keeps_endpoints (fill_yaws ext)"
  shows "fst (plan ext t self start goal) =
           fill_yaws ext \<lparr>poses = map pose (query_waypoints ext self start goal)\<rparr> \<and>
         map position (poses (fst (plan ext t self start goal))) =
           map position (map pose (query_waypoints ext self start goal)) \<and>
         hd (poses (fst (plan ext t self start goal))) =
           pose (hd (query_waypoints ext self start goal)) \<and>
         last (poses (fst (plan ext t self start goal))) =
           pose (last (query_waypoints ext self start goal))"
proof -
  let ?W = "query_waypoints ext self start goal"
  have p: "fst (plan ext t self start goal) = fill_yaws ext \<lparr>poses = map pose ?W\<rparr>"
    using assms(1) by (simp add: plan_success [OF assms(2)])
  have ne: "poses \<lparr>poses = map pose ?W\<rparr> \<noteq> []" using assms(2) by simp
  have "map position (poses (fill_yaws ext \<lparr>poses = map pose ?W\<rparr>)) = map position (map pose ?W)"
    using assms(3) by (simp add: heading_fill_def)
  moreover have "hd (poses (fill_yaws ext \<lparr>poses = map pose ?W\<rparr>)) = pose (hd ?W)"
    "last (poses (fill_yaws ext \<lparr>poses = map pose ?W\<rparr>)) = pose (last ?W)"
    using assms(4) ne assms(2) unfolding keeps_endpoints_def by (simp_all add: hd_map last_map)
  ultimately show ?thesis unfolding p by simp
qed

theorem uncompressed_path_witness:
  "\<not> compress_path turned_planner \<and>
   query_waypoints filling_collab turned_planner (RawPose (pt (-1) 0)) (RawPose (pt 1 0)) \<noteq> [] \<and>
   map position
     (poses (fst (plan filling_collab 3 turned_planner (RawPose (pt (-1) 0)) (RawPose (pt 1 0))))) =
     [(-1, 0), (0, 0), (1, 0)] \<and>
   hd (poses (fst (plan filling_collab 3 turned_planner (RawPose (pt (-1) 0)) (RawPose (pt 1 0))))) =
     pt (-1) 0 \<and>
   last (poses (fst (plan filling_collab 3 turned_planner (RawPose (pt (-1) 0)) (RawPose (pt 1 0))))) =
     pt 1 0"
proof -
  have c: "\<not> compress_path turned_planner" by (simp add: turned_planner_eq)
  have q: "query_waypoints filling_collab turned_planner (RawPose (pt (-1) 0)) (RawPose (pt 1 0)) \<noteq> []"
    by (simp add: turned_waypoints)
  note r = uncompressed_path [OF c q filling_collab_fill, of 3, unfolded turned_waypoints]
  have "map position
     (poses (fst (plan filling_collab 3 turned_planner (RawPose (pt (-1) 0)) (RawPose (pt 1 0))))) =
     [(-1, 0), (0, 0), (1, 0)]"
    using r [THEN conjunct2, THEN conjunct1] by (simp add: position_def pt_def turned_def)
  moreover have "hd (poses (fst (plan filling_collab 3 turned_planner (RawPose (pt (-1) 0))
                                    (RawPose (pt 1 0))))) = pt (-1) 0"
    "last (poses (fst (plan filling_collab 3 turned_planner (RawPose (pt (-1) 0))
                                    (RawPose (pt 1 0))))) = pt 1 0"
    using r [THEN conjunct2, THEN conjunct2] by simp_all
  ultimately show ?thesis using c q by blast
qed

text \<open>
  C6 read as equality of the Poses fails: the node sampled at the origin has heading 1,
  the path from (-1, 0) to (1, 0) passes through it, and the Pose returned for it has
  the heading 0 of the segment that arrives at it.
\<close>

theorem uncompressed_path_headings_differ:
  "\<not> compress_path turned_planner \<and>
   query_waypoints filling_collab turned_planner (RawPose (pt (-1) 0)) (RawPose (pt 1 0)) \<noteq> [] \<and>
   poses (fst (plan filling_collab 3 turned_planner (RawPose (pt (-1) 0)) (RawPose (pt 1 0)))) \<noteq>
     map pose (query_waypoints filling_collab turned_planner (RawPose (pt (-1) 0)) (RawPose (pt 1 0)))"
  unfolding turned_path turned_waypoints
  by (simp add: turned_planner_eq pt_def turned_def)

text \<open>
  C7. A planner built with \<open>max_nodes = 0\<close> has an empty roadmap. If the oracle connects
  the start pose and the goal pose (in either direction; both nodes are in the graph
  before either connection pass runs), and the search and the fill do what they are
  relied on for, \<^verbatim>\<open>plan\<close> returns the Path of the two Poses start and goal, as they were
  given. When \<^verbatim>\<open>compress_path\<close> is on, the compressor is assumed to keep the two
  endpoints.
\<close>

theorem empty_roadmap_direct_path:
  assumes "max_nodes self = 0"
    and "is_connectable (the_world self) a b (max_connection_dist self) \<or>
         is_connectable (the_world self) b a (max_connection_dist self)"
    and "search_ok (find_path ext)
           (graph (insert_query (fst (reset t0 self)) (RawPose a) (RawPose b)))
           (start_node (fst (reset t0 self)) (RawPose a) (RawPose b))
           (goal_node (fst (reset t0 self)) (RawPose a) (RawPose b))"
    and "compress_path self \<longrightarrow> reduce_waypoints_polygon ext (the_world self) [a, b] = [a, b]"
    and "heading_fill (fill_yaws ext)" and "keeps_endpoints (fill_yaws ext)"
  shows "poses (fst (plan ext t (fst (reset t0 self)) (RawPose a) (RawPose b))) = [a, b]"
proof -
  let ?P = "fst (reset t0 self)"
  let ?s = "start_node ?P (RawPose a) (RawPose b)" and ?g = "goal_node ?P (RawPose a) (RawPose b)"
  let ?Q = "graph (insert_query ?P (RawPose a) (RawPose b))"
  have G: "graph ?P = empty_graph" by (rule reset_no_nodes [OF assms(1)])
  have s: "?s = \<lparr>nid = 1, pose = a, parent = None\<rparr>"
    by (simp add: start_node_def G mk_node_def node_ids_def empty_graph_def new_id_def)
  have g: "?g = \<lparr>nid = 2, pose = b, parent = None\<rparr>"
    by (simp add: goal_node_def s G mk_node_def node_ids_def empty_graph_def new_id_def add_node_def)
  have nodes: "nodes ?Q = [?s, ?g]"
    unfolding graph_insert_query nodes_connect_graph
    by (simp add: s g G add_node_def node_ids_def empty_graph_def)
  have edge: "has_edge ?Q (nid ?s) (nid ?g)"
    unfolding graph_insert_query has_edge_connect_graph nodes_connect_graph
    using assms(2) by (auto simp: s g G add_node_def node_ids_def empty_graph_def)
  then have "reachable ?Q (nid ?s) (nid ?g)"
    unfolding reachable_def by blast
  with assms(3) have "is_route ?Q ?s ?g (find_path ext ?Q ?s ?g)"
    by (simp add: search_ok_def)
  then have "find_path ext ?Q ?s ?g = [?s, ?g]"
    by (rule two_node_route) (simp_all add: nodes, simp add: s g)
  then have wp: "query_waypoints ext ?P (RawPose a) (RawPose b) = [?s, ?g]"
    by (simp add: query_waypoints_def)
  have p: "fst (plan ext t ?P (RawPose a) (RawPose b)) = fill_yaws ext \<lparr>poses = [a, b]\<rparr>"
    using assms(4) by (subst plan_success) (simp_all add: wp, simp_all add: s g)
  have "map position (poses (fill_yaws ext \<lparr>poses = [a, b]\<rparr>)) = [position a, position b]"
    using assms(5) by (simp add: heading_fill_def)
  moreover have "hd (poses (fill_yaws ext \<lparr>poses = [a, b]\<rparr>)) = a"
    "last (poses (fill_yaws ext \<lparr>poses = [a, b]\<rparr>)) = b"
    using assms(6) unfolding keeps_endpoints_def by fastforce+
  ultimately have "poses (fill_yaws ext \<lparr>poses = [a, b]\<rparr>) = [a, b]"
    by (rule two_poses)
  then show ?thesis by (simp add: p)
qed

lemma empty_planner_reset: "fst (reset 0 (unbuilt_planner 0 (line_world []))) = empty_planner"
  by (simp add: empty_planner_def prm_polygon_init_def unbuilt_planner_def)

lemma via_search_ok:
  "search_ok (find_path filling_collab)
     (graph (insert_query empty_planner (RawPose turned) (RawPose (pt 1 0))))
     (start_node empty_planner (RawPose turned) (RawPose (pt 1 0)))
     (goal_node empty_planner (RawPose turned) (RawPose (pt 1 0)))"
proof -
  let ?Q = "graph (insert_query empty_planner (RawPose turned) (RawPose (pt 1 0)))"
  have Q: "?Q = \<lparr>nodes = [\<lparr>nid = 1, pose = turned, parent = None\<rparr>,
                            \<lparr>nid = 2, pose = pt 1 0, parent = None\<rparr>], edges = [(1, 2)]\<rparr>"
    by (simp add: empty_planner_eq turned_def prm_eval)
  have s: "start_node empty_planner (RawPose turned) (RawPose (pt 1 0)) =
             \<lparr>nid = 1, pose = turned, parent = None\<rparr>"
    and g: "goal_node empty_planner (RawPose turned) (RawPose (pt 1 0)) =
             \<lparr>nid = 2, pose = pt 1 0, parent = None\<rparr>"
    by (simp_all add: empty_planner_eq prm_eval)
  have e: "has_edge ?Q 1 2" by (simp add: Q has_edge_def)
  then have "reachable ?Q 1 2" unfolding reachable_def by blast
  then show ?thesis
    unfolding s g using e
    by (simp add: search_ok_def is_route_def filling_collab_def via_search_def Q)
qed

theorem empty_roadmap_direct_path_witness:
  "max_nodes (unbuilt_planner 0 (line_world [])) = 0 \<and>
   is_connectable (line_world []) turned (pt 1 0) 1 \<and>
   poses (fst (plan filling_collab 3 empty_planner (RawPose turned) (RawPose (pt 1 0)))) =
     [turned, pt 1 0]"
proof -
  have m: "max_nodes (unbuilt_planner 0 (line_world [])) = 0"
    by (simp add: unbuilt_planner_def)
  have c: "is_connectable (the_world (unbuilt_planner 0 (line_world []))) turned (pt 1 0)
             (max_connection_dist (unbuilt_planner 0 (line_world []))) \<or>
           is_connectable (the_world (unbuilt_planner 0 (line_world []))) (pt 1 0) turned
             (max_connection_dist (unbuilt_planner 0 (line_world [])))"
    by (simp add: unbuilt_planner_def line_world_def pt_def turned_def)
  have k: "compress_path (unbuilt_planner 0 (line_world [])) \<longrightarrow>
           reduce_waypoints_polygon filling_collab (the_world (unbuilt_planner 0 (line_world [])))
             [turned, pt 1 0] = [turned, pt 1 0]"
    by (simp add: unbuilt_planner_def)
  have "poses (fst (plan filling_collab 3 empty_planner (RawPose turned) (RawPose (pt 1 0)))) =
          [turned, pt 1 0]"
    using empty_roadmap_direct_path
      [of "unbuilt_planner 0 (line_world [])" turned "pt 1 0" filling_collab 0 3,
       OF m c _ k filling_collab_fill]
      via_search_ok
    unfolding empty_planner_reset by blast
  then show ?thesis using m by (simp add: line_world_def pt_def turned_def)
qed

section \<open>Asking twice\<close>



end
